theory Spec2Isabelle
  imports Main "HOL-Library.Word" "HOL-Library.Multiset" "HOL-Library.AList"
begin

section \<open>Data model of \<^verbatim>\<open>filetree/data.go\<close>\<close>

subsection \<open>DiffType\<close>

text \<open>
  \<^verbatim>\<open>type DiffType int\<close> with the constants \<^verbatim>\<open>Unchanged = iota, Changed, Added, Removed\<close>.
  The type is Go's \<^verbatim>\<open>int\<close>, not a closed enumeration (\<^verbatim>\<open>String\<close> has a branch for
  every other number), so it is an integer here as well. The code only compares such
  values and returns constants, hence the width of \<^verbatim>\<open>int\<close> plays no role.
\<close>

type_synonym DiffType = int

definition Unchanged :: DiffType where "Unchanged = 0"
definition Changed :: DiffType where "Changed = 1"
definition Added :: DiffType where "Added = 2"
definition Removed :: DiffType where "Removed = 3"

text \<open>
  \<^verbatim>\<open>func (diff DiffType) merge(other DiffType) DiffType {
    if diff == other { return diff }
    return Changed }\<close>
\<close>

definition merge :: "DiffType \<Rightarrow> DiffType \<Rightarrow> DiffType" where
  "merge diff other = (if diff = other then diff else Changed)"



subsection \<open>tar.Header, FileInfo, ViewInfo, NodeData\<close>

type_synonym byte = "8 word"
type_synonym uint64 = "64 word"
type_synonym int64 = "64 word"  \<comment> \<open>two's complement, read with \<open>sint\<close>\<close>
type_synonym addr = nat

text \<open>
  \<^verbatim>\<open>tar.Header\<close> is the struct of Go's \<^verbatim>\<open>archive/tar\<close>. Its scalar fields are values.
  \<^verbatim>\<open>Xattrs\<close> and \<^verbatim>\<open>PAXRecords\<close> have type \<^verbatim>\<open>map[string]string\<close>: a Go map value is a
  reference to a map object, so these two fields hold the address of a map object in
  the heap below (\<open>None\<close> is the nil map). Times are kept as plain numbers.
\<close>

record tar_Header =
  Typeflag :: byte
  Name :: string
  Linkname :: string
  Size :: int64
  Mode :: int64
  Uid :: int
  Gid :: int
  Uname :: string
  Gname :: string
  ModTime :: int
  AccessTime :: int
  ChangeTime :: int
  Devmajor :: int64
  Devminor :: int64
  Xattrs :: "addr option"
  PAXRecords :: "addr option"
  Format :: int

text \<open>\<^verbatim>\<open>tar.TypeDir = '5'\<close>\<close>

definition TypeDir :: byte where "TypeDir = 53"

record FileInfo =
  Path :: string
  TypeFlag :: byte
  hash :: uint64
  TarHeader :: tar_Header

record ViewInfo =
  Collapsed :: bool
  Hidden :: bool

record NodeData =
  ViewInfo :: ViewInfo
  FileInfo :: FileInfo
  DiffType :: DiffType

subsection \<open>Panics, pointers and the heap\<close>

text \<open>
  A panic is a result of its own. \<^verbatim>\<open>logrus.Panic(err)\<close> in the hasher panics with the
  read error, the argument-less \<^verbatim>\<open>logrus.Panic()\<close> in \<^verbatim>\<open>NewFileInfo\<close> is the size mismatch;
  the others are raised by the Go runtime.
\<close>

datatype io_error = EOF | OtherError string

datatype panic =
    NilPointerDereference
  | ReadErrorPanic io_error
  | SizeMismatchPanic
  | SliceBoundsOutOfRange
  | AssignToNilMap

text \<open>
  \<^verbatim>\<open>ViewInfo\<close>, \<^verbatim>\<open>FileInfo\<close> and \<^verbatim>\<open>TarHeader\<close> are struct-valued fields: they are part
  of the object that holds them, and so are the strings, which Go never mutates. What a
  NodeData shares with others can only be the two maps of its tar header.
  A pointer that the code only reads through is an \<open>option\<close> of the object it points to
  (\<open>None\<close> is nil). \<^verbatim>\<open>*NodeData\<close> pointers, whose targets a caller may later mutate, and
  map references are addresses into a heap: the objects allocated so far, in
  allocation order, the address of an object being its index. A map object is the
  list of its key/value pairs, each key once. Go has no dangling pointers; an address
  beyond the allocated objects behaves as nil.
\<close>

record heap =
  nodeObjs :: "NodeData list"
  mapObjs :: "(string \<times> string) list list"

definition load :: "heap \<Rightarrow> addr option \<Rightarrow> NodeData option" where
  "load hp p = (case p of None \<Rightarrow> None
      | Some a \<Rightarrow> if a < length (nodeObjs hp) then Some (nodeObjs hp ! a) else None)"

text \<open>\<^verbatim>\<open>&NodeData{...}\<close>: a new object at an address not in use.\<close>

definition alloc :: "heap \<Rightarrow> NodeData \<Rightarrow> addr \<times> heap" where
  "alloc hp nd = (length (nodeObjs hp), hp\<lparr>nodeObjs := nodeObjs hp @ [nd]\<rparr>)"

text \<open>\<^verbatim>\<open>*p = nd\<close>, and with it every assignment to a field of \<^verbatim>\<open>*p\<close>.\<close>

definition store :: "heap \<Rightarrow> addr \<Rightarrow> NodeData \<Rightarrow> heap" where
  "store hp a nd = hp\<lparr>nodeObjs := (nodeObjs hp)[a := nd]\<rparr>"

text \<open>\<^verbatim>\<open>m[k]\<close> (reading a nil map finds nothing) and \<^verbatim>\<open>m[k] = v\<close> (a nil map panics).\<close>

definition mapaccess :: "heap \<Rightarrow> addr option \<Rightarrow> string \<Rightarrow> string option" where
  "mapaccess hp m k = (case m of None \<Rightarrow> None
      | Some a \<Rightarrow> if a < length (mapObjs hp) then map_of (mapObjs hp ! a) k else None)"

definition mapassign :: "heap \<Rightarrow> addr option \<Rightarrow> string \<Rightarrow> string \<Rightarrow> panic + heap" where
  "mapassign hp m k v = (case m of None \<Rightarrow> Inl AssignToNilMap
      | Some a \<Rightarrow> if a < length (mapObjs hp)
          then Inr (hp\<lparr>mapObjs := (mapObjs hp)[a := AList.update k v (mapObjs hp ! a)]\<rparr>)
          else Inl AssignToNilMap)"

subsection \<open>ViewInfo and NodeData operations\<close>

text \<open>
  \<^verbatim>\<open>NewViewInfo\<close> reads \<^verbatim>\<open>viper.GetBool("filetree.collapse-dir")\<close>; the configuration value
  is the parameter \<open>collapse_dir\<close>. The pointer it returns is never nil, the model
  returns the object.
\<close>

definition NewViewInfo :: "bool \<Rightarrow> ViewInfo" where
  "NewViewInfo collapse_dir = \<lparr>Collapsed = collapse_dir, Hidden = False\<rparr>"

text \<open>
  \<^verbatim>\<open>func (view *ViewInfo) Copy() (newView *ViewInfo) {
    newView = NewViewInfo(); *newView = *view; return newView }\<close>
\<close>

definition ViewInfo_Copy :: "bool \<Rightarrow> ViewInfo option \<Rightarrow> panic + ViewInfo" where
  "ViewInfo_Copy collapse_dir view =
     (let newView = NewViewInfo collapse_dir in
      case view of None \<Rightarrow> Inl NilPointerDereference
      | Some v \<Rightarrow> Inr (newView\<lparr>Collapsed := Collapsed v, Hidden := Hidden v\<rparr>))"

text \<open>
  \<^verbatim>\<open>func (data *FileInfo) Copy() *FileInfo {
    if data == nil { return nil }
    return &FileInfo{Path: data.Path, TypeFlag: data.TypeFlag, hash: data.hash,
                     TarHeader: data.TarHeader} }\<close>
  The assignment of \<^verbatim>\<open>data.TarHeader\<close> copies the struct, and with it the two map
  references.
\<close>

definition FileInfo_Copy :: "FileInfo option \<Rightarrow> FileInfo option" where
  "FileInfo_Copy data =
     (case data of None \<Rightarrow> None
      | Some d \<Rightarrow> Some \<lparr>Path = Path d, TypeFlag = TypeFlag d, hash = hash d,
                        TarHeader = TarHeader d\<rparr>)"

text \<open>
  \<^verbatim>\<open>func (data *NodeData) Copy() *NodeData {
    return &NodeData{ViewInfo: *data.ViewInfo.Copy(), FileInfo: *data.FileInfo.Copy(),
                     DiffType: data.DiffType} }\<close>
  The receivers \<^verbatim>\<open>&data.ViewInfo\<close> and \<^verbatim>\<open>&data.FileInfo\<close> are not nil once \<^verbatim>\<open>data\<close> is not.
\<close>

definition NodeData_Copy :: "bool \<Rightarrow> heap \<Rightarrow> addr option \<Rightarrow> panic + addr \<times> heap" where
  "NodeData_Copy collapse_dir hp data =
     (case load hp data of None \<Rightarrow> Inl NilPointerDereference
      | Some d \<Rightarrow>
          (case ViewInfo_Copy collapse_dir (Some (ViewInfo d)) of Inl p \<Rightarrow> Inl p
           | Inr v \<Rightarrow>
               (case FileInfo_Copy (Some (FileInfo d)) of None \<Rightarrow> Inl NilPointerDereference
                | Some f \<Rightarrow> Inr (alloc hp \<lparr>ViewInfo = v, FileInfo = f, DiffType = DiffType d\<rparr>))))"

text \<open>
  \<^verbatim>\<open>func (data *FileInfo) Compare(other FileInfo) DiffType {
    if data.TypeFlag == other.TypeFlag { if data.hash == other.hash { return Unchanged } }
    return Changed }\<close>
\<close>

definition Compare :: "FileInfo option \<Rightarrow> FileInfo \<Rightarrow> panic + DiffType" where
  "Compare data other =
     (case data of None \<Rightarrow> Inl NilPointerDereference
      | Some d \<Rightarrow>
          if TypeFlag d = TypeFlag other
          then (if hash d = hash other then Inr Unchanged else Inr Changed)
          else Inr Changed)"

subsection \<open>The streaming hasher\<close>

text \<open>
  \<^verbatim>\<open>xxhash.New()\<close>, \<^verbatim>\<open>h.Write\<close> and \<^verbatim>\<open>h.Sum64\<close> belong to the library
  \<^verbatim>\<open>github.com/cespare/xxhash\<close>; the digest is a parameter: its state type, the initial
  state, the update by a chunk and the final value.
\<close>

record 'd Digest =
  New :: 'd
  Write :: "'d \<Rightarrow> byte list \<Rightarrow> 'd"
  Sum64 :: "'d \<Rightarrow> uint64"

text \<open>
  An \<^verbatim>\<open>io.Reader\<close> is a state and its \<^verbatim>\<open>Read\<close> method: given the length of the buffer and
  the state, the bytes that were put into the buffer (their number is \<^verbatim>\<open>n\<close>, which is
  thus never negative), the error (\<open>None\<close> is nil) and the next state.
\<close>

type_synonym 's Read = "nat \<Rightarrow> 's \<Rightarrow> (byte list \<times> io_error option) \<times> 's"

text \<open>\<^verbatim>\<open>var chuckSize = 2 * 1024 * 1024\<close>, a parameter \<open>k\<close> of the functions below.\<close>

definition chuckSize :: nat where "chuckSize = 2 * 1024 * 1024"

text \<open>
  The loop of \<^verbatim>\<open>getHashFromReader\<close>, which ends only by \<^verbatim>\<open>break\<close> or by a panic; a reader
  that delivers bytes forever keeps it running, and the result is then \<open>None\<close>.
  \<^verbatim>\<open>for {
    n, err := reader.Read(buf)
    bytesRead += uint64(n)
    if err != nil && err != io.EOF { logrus.Panic(err) }
    if n == 0 { break }
    h.Write(buf[:n]) }\<close>
  \<^verbatim>\<open>buf[:n]\<close> panics when the reader reports more bytes than the buffer holds. The digest
  has taken the chunk in when \<^verbatim>\<open>Write\<close> returns, so the reuse of \<^verbatim>\<open>buf\<close> by the next read
  does not reach it.
\<close>

partial_function (option) getHashLoop ::
  "'d Digest \<Rightarrow> 's Read \<Rightarrow> nat \<Rightarrow> 'd \<Rightarrow> uint64 \<Rightarrow> 's \<Rightarrow> (panic + (uint64 \<times> uint64) \<times> 's) option"
where
  "getHashLoop X rd k h bytesRead reader =
     (case rd k reader of ((buf, err), reader') \<Rightarrow>
        if err \<noteq> None \<and> err \<noteq> Some EOF then Some (Inl (ReadErrorPanic (the err)))
        else if length buf = 0 then Some (Inr ((Sum64 X h, bytesRead + of_nat (length buf)), reader'))
        else if k < length buf then Some (Inl SliceBoundsOutOfRange)
        else getHashLoop X rd k (Write X h buf) (bytesRead + of_nat (length buf)) reader')"

definition getHashFromReader ::
  "'d Digest \<Rightarrow> 's Read \<Rightarrow> nat \<Rightarrow> 's \<Rightarrow> (panic + (uint64 \<times> uint64) \<times> 's) option" where
  "getHashFromReader X rd k reader = getHashLoop X rd k (New X) 0 reader"

text \<open>
  \<^verbatim>\<open>NewFileInfo(reader *tar.Reader, header *tar.Header, path string) FileInfo\<close>. The result
  carries the state in which the reader is left. \<^verbatim>\<open>uint64(header.Size)\<close> keeps the 64
  bits of the size. The two \<^verbatim>\<open>fmt.Printf\<close> calls write to the console only.
\<close>

definition NewFileInfo ::
  "'d Digest \<Rightarrow> 's Read \<Rightarrow> nat \<Rightarrow> 's \<Rightarrow> tar_Header option \<Rightarrow> string \<Rightarrow> (panic + FileInfo \<times> 's) option" where
  "NewFileInfo X rd k reader header path =
     (case header of None \<Rightarrow> Some (Inl NilPointerDereference)
      | Some hdr \<Rightarrow>
          if Typeflag hdr = TypeDir
          then Some (Inr (\<lparr>Path = path, TypeFlag = Typeflag hdr, hash = 0, TarHeader = hdr\<rparr>, reader))
          else
            (case getHashFromReader X rd k reader of None \<Rightarrow> None
             | Some (Inl p) \<Rightarrow> Some (Inl p)
             | Some (Inr ((h, bytesRead), reader')) \<Rightarrow>
                 if bytesRead \<noteq> Size hdr then Some (Inl SizeMismatchPanic)
                 else Some (Inr (\<lparr>Path = path, TypeFlag = Typeflag hdr, hash = h,
                                  TarHeader = hdr\<rparr>, reader'))))"


section \<open>Runs of a reader, and the inputs of the examples\<close>

subsection \<open>What a reader delivers\<close>

text \<open>
  \<open>readsChunks rd k reader cs\<close> follows the reader from the state \<open>reader\<close> through
  successive \<^verbatim>\<open>Read\<close> calls with a buffer of \<open>k\<close> bytes, as long as they return the
  chunks \<open>cs\<close> in this order, each of them not empty, within the buffer, and with the
  error nil or \<^verbatim>\<open>io.EOF\<close>; it gives the state of the reader after them.
\<close>

fun readsChunks :: "'s Read \<Rightarrow> nat \<Rightarrow> 's \<Rightarrow> byte list list \<Rightarrow> 's option" where
  "readsChunks rd k reader [] = Some reader"
| "readsChunks rd k reader (c # cs) =
     (case rd k reader of ((buf, err), reader') \<Rightarrow>
        if buf = c \<and> c \<noteq> [] \<and> length c \<le> k \<and> (err = None \<or> err = Some EOF)
        then readsChunks rd k reader' cs else None)"

text \<open>
  A read at which the loop of \<^verbatim>\<open>getHashFromReader\<close> does not go round again, and what the
  function yields when this read comes after the chunks \<open>cs\<close>, the digest and the counter
  having been \<open>h\<close> and \<open>n\<close> before them.
\<close>

definition stopsAt :: "'s Read \<Rightarrow> nat \<Rightarrow> 's \<Rightarrow> bool" where
  "stopsAt rd k r1 =
     (case rd k r1 of ((buf, err), reader') \<Rightarrow>
        (err \<noteq> None \<and> err \<noteq> Some EOF) \<or> buf = [] \<or> k < length buf)"

definition hashOutcome ::
  "'d Digest \<Rightarrow> 's Read \<Rightarrow> nat \<Rightarrow> 'd \<Rightarrow> uint64 \<Rightarrow> 's \<Rightarrow> byte list list
    \<Rightarrow> panic + (uint64 \<times> uint64) \<times> 's" where
  "hashOutcome X rd k h n r1 cs =
     (case rd k r1 of ((buf, err), reader') \<Rightarrow>
        if err \<noteq> None \<and> err \<noteq> Some EOF then Inl (ReadErrorPanic (the err))
        else if buf = []
          then Inr ((Sum64 X (foldl (Write X) h cs), n + of_nat (length (concat cs))), reader')
        else Inl SliceBoundsOutOfRange)"

subsection \<open>Two readers and a digest to run the code on\<close>

text \<open>
  A reader that plays a script of \<^verbatim>\<open>Read\<close> results, and reports end of stream once the
  script is used up.
\<close>

definition scriptRead :: "(byte list \<times> io_error option) list Read" where
  "scriptRead k script =
     (case script of [] \<Rightarrow> (([], Some EOF), []) | resp # rest \<Rightarrow> (resp, rest))"

text \<open>
  A reader over the payload of one archive entry, in the manner of \<^verbatim>\<open>tar.Reader\<close>: it
  fills the buffer as far as the payload goes, reports \<^verbatim>\<open>io.EOF\<close> together with the last
  bytes, and \<^verbatim>\<open>(0, io.EOF)\<close> from then on.
\<close>

definition entryRead :: "byte list Read" where
  "entryRead k payload =
     ((take k payload, if drop k payload = [] then Some EOF else None), drop k payload)"

text \<open>
  A small digest for the examples (a polynomial in the bytes, modulo \<open>2 ^ 64\<close>). The
  theorems hold for every digest; this one only makes the examples concrete.
\<close>

definition polyDigest :: "uint64 Digest" where
  "polyDigest = \<lparr>New = 0, Write = foldl (\<lambda>d b. d * 31 + ucast b), Sum64 = (\<lambda>d. d)\<rparr>"

subsection \<open>Example headers, entries and heaps\<close>

definition fileHeader :: tar_Header where
  "fileHeader = \<lparr>Typeflag = 48, Name = ''bin/sh'', Linkname = [], Size = 3, Mode = 493,
     Uid = 0, Gid = 0, Uname = ''root'', Gname = ''root'', ModTime = 1537000000,
     AccessTime = 0, ChangeTime = 0, Devmajor = 0, Devminor = 0, Xattrs = Some 0,
     PAXRecords = None, Format = 4\<rparr>"

definition dirHeader :: tar_Header where
  "dirHeader = \<lparr>Typeflag = TypeDir, Name = ''etc/'', Linkname = [], Size = 0, Mode = 493,
     Uid = 0, Gid = 0, Uname = ''root'', Gname = ''root'', ModTime = 1537000000,
     AccessTime = 0, ChangeTime = 0, Devmajor = 0, Devminor = 0, Xattrs = None,
     PAXRecords = None, Format = 4\<rparr>"

definition dirEntryA :: FileInfo where
  "dirEntryA = \<lparr>Path = ''/etc'', TypeFlag = TypeDir, hash = 0, TarHeader = dirHeader\<rparr>"

definition dirEntryB :: FileInfo where
  "dirEntryB = \<lparr>Path = ''/etc'', TypeFlag = TypeDir, hash = 1, TarHeader = dirHeader\<rparr>"

definition fileEntry :: FileInfo where
  "fileEntry = \<lparr>Path = ''/bin/sh'', TypeFlag = 48, hash = 1026, TarHeader = fileHeader\<rparr>"

definition fileNode :: NodeData where
  "fileNode = \<lparr>ViewInfo = \<lparr>Collapsed = True, Hidden = False\<rparr>, FileInfo = fileEntry,
     DiffType = Added\<rparr>"

text \<open>
  A heap with one node, whose header's \<^verbatim>\<open>Xattrs\<close> is the map object at address 0; the
  heap after \<^verbatim>\<open>Copy\<close> of that node; and the latter after \<^verbatim>\<open>Xattrs["user.k"] = "v"\<close>.
\<close>

definition heap0 :: heap where
  "heap0 = \<lparr>nodeObjs = [fileNode], mapObjs = [[(''user.mime'', ''text/plain'')]]\<rparr>"

definition heap1 :: heap where
  "heap1 = \<lparr>nodeObjs = [fileNode, fileNode], mapObjs = [[(''user.mime'', ''text/plain'')]]\<rparr>"

definition heap2 :: heap where
  "heap2 = \<lparr>nodeObjs = [fileNode, fileNode],
     mapObjs = [[(''user.mime'', ''text/plain''), (''user.k'', ''v'')]]\<rparr>"

text \<open>\<^verbatim>\<open>p.FileInfo.TarHeader.Xattrs\<close> for the node at address \<open>a\<close>.\<close>

definition nodeXattrs :: "heap \<Rightarrow> addr \<Rightarrow> addr option" where
  "nodeXattrs hp a =
     (case load hp (Some a) of None \<Rightarrow> None | Some d \<Rightarrow> Xattrs (TarHeader (FileInfo d)))"


section \<open>DiffType.merge\<close>

lemma merge_Changed_left: "merge Changed x = Changed"
  by (simp add: merge_def)

lemma merge_Changed_right: "merge x Changed = Changed"
  by (simp add: merge_def)

lemma merge_commute: "merge a b = merge b a"
  by (simp add: merge_def)

lemma merge_assoc: "merge (merge a b) c = merge a (merge b c)"
  by (simp add: merge_def)

lemma merge_step_commute: "(\<lambda>s. merge s x) \<circ> (\<lambda>s. merge s y) = (\<lambda>s. merge s y) \<circ> (\<lambda>s. merge s x)"
proof
  fix s
  have "merge (merge s y) x = merge s (merge y x)"
    by (rule merge_assoc)
  also have "\<dots> = merge s (merge x y)"
    by (simp only: merge_commute [of y x])
  also have "\<dots> = merge (merge s x) y"
    by (rule merge_assoc [symmetric])
  finally show "((\<lambda>s. merge s x) \<circ> (\<lambda>s. merge s y)) s = ((\<lambda>s. merge s y) \<circ> (\<lambda>s. merge s x)) s"
    by simp
qed

lemma foldl_merge_permute:
  assumes "mset xs = mset ys"
  shows "foldl merge s xs = foldl merge s ys"
proof -
  have "fold (\<lambda>x s. merge s x) xs = fold (\<lambda>x s. merge s x) ys"
    using assms by (intro fold_multiset_equiv) (rule merge_step_commute)
  then show ?thesis
    by (simp add: foldl_conv_fold)
qed

text \<open>
  C1. \<^verbatim>\<open>merge\<close> is commutative and associative for all DiffType values (the four named
  ones and every other integer), and therefore a left-to-right fold of the statuses of
  a collection of children, \<^verbatim>\<open>acc = acc.merge(child)\<close>, gives the same result for every
  order in which the same children are visited.
\<close>

theorem merge_commutative_associative:
  "merge a b = merge b a
   \<and> merge (merge a b) c = merge a (merge b c)
   \<and> (mset xs = mset ys \<longrightarrow> foldl merge s xs = foldl merge s ys)"
  using merge_commute merge_assoc foldl_merge_permute by blast

theorem merge_commutative_associative_witness:
  "merge Added Removed = merge Removed Added
   \<and> merge (merge Added Removed) Unchanged = merge Added (merge Removed Unchanged)
   \<and> mset [Unchanged, Unchanged, Added] = mset [Added, Unchanged, Unchanged]
   \<and> foldl merge Unchanged [Unchanged, Unchanged, Added] = Changed
   \<and> foldl merge Unchanged [Added, Unchanged, Unchanged] = Changed"
  using merge_commutative_associative
    [of Added Removed Unchanged "[Unchanged, Unchanged, Added]" "[Added, Unchanged, Unchanged]" Unchanged]
  by (simp add: merge_def Unchanged_def Changed_def Added_def Removed_def)

text \<open>
  C2. \<^verbatim>\<open>merge x x\<close> is \<^verbatim>\<open>x\<close>, and \<^verbatim>\<open>merge x y\<close> is \<^verbatim>\<open>Changed\<close> whenever \<^verbatim>\<open>x\<close> and \<^verbatim>\<open>y\<close>
  differ; this holds for every pair of DiffType values, in particular for every
  combination of Unchanged, Changed, Added and Removed.
\<close>

theorem merge_equal_or_Changed:
  "merge x x = x \<and> (x \<noteq> y \<longrightarrow> merge x y = Changed)"
  by (simp add: merge_def)

theorem merge_equal_or_Changed_witness:
  "merge Added Added = Added \<and> Unchanged \<noteq> Removed \<and> merge Unchanged Removed = Changed"
  using merge_equal_or_Changed [of Added Removed] merge_equal_or_Changed [of Unchanged Removed]
  by (simp add: Unchanged_def Removed_def)


section \<open>FileInfo.Compare\<close>

text \<open>
  C3. For every pair of FileInfo values \<open>a\<close> and \<open>b\<close>, \<^verbatim>\<open>a.Compare(b)\<close> is \<^verbatim>\<open>Changed\<close>
  when the type flags differ, whatever the fingerprints are; \<^verbatim>\<open>Changed\<close> when the type
  flags match, neither is the directory flag and the fingerprints differ; \<^verbatim>\<open>Unchanged\<close>
  when type flags and fingerprints match; and it is never \<^verbatim>\<open>Added\<close> or \<^verbatim>\<open>Removed\<close>.
\<close>

theorem Compare_type_then_fingerprint:
  "(TypeFlag a \<noteq> TypeFlag b \<longrightarrow> Compare (Some a) b = Inr Changed)
   \<and> (TypeFlag a = TypeFlag b \<and> TypeFlag a \<noteq> TypeDir \<and> TypeFlag b \<noteq> TypeDir
        \<and> hash a \<noteq> hash b \<longrightarrow> Compare (Some a) b = Inr Changed)
   \<and> (TypeFlag a = TypeFlag b \<and> hash a = hash b \<longrightarrow> Compare (Some a) b = Inr Unchanged)
   \<and> Compare (Some a) b \<noteq> Inr Added \<and> Compare (Some a) b \<noteq> Inr Removed"
  by (simp add: Compare_def Unchanged_def Changed_def Added_def Removed_def)

theorem Compare_type_then_fingerprint_witness:
  "TypeFlag dirEntryA \<noteq> TypeFlag (fileEntry\<lparr>hash := 0\<rparr>)
   \<and> hash dirEntryA = hash (fileEntry\<lparr>hash := 0\<rparr>)
   \<and> Compare (Some dirEntryA) (fileEntry\<lparr>hash := 0\<rparr>) = Inr Changed
   \<and> TypeFlag fileEntry = TypeFlag (fileEntry\<lparr>hash := 7\<rparr>) \<and> TypeFlag fileEntry \<noteq> TypeDir
   \<and> hash fileEntry \<noteq> hash (fileEntry\<lparr>hash := 7\<rparr>)
   \<and> Compare (Some fileEntry) (fileEntry\<lparr>hash := 7\<rparr>) = Inr Changed
   \<and> TypeFlag fileEntry = TypeFlag (fileEntry\<lparr>Path := ''/bin/dash''\<rparr>)
   \<and> hash fileEntry = hash (fileEntry\<lparr>Path := ''/bin/dash''\<rparr>)
   \<and> Compare (Some fileEntry) (fileEntry\<lparr>Path := ''/bin/dash''\<rparr>) = Inr Unchanged"
  using Compare_type_then_fingerprint [of dirEntryA "fileEntry\<lparr>hash := 0\<rparr>"]
    Compare_type_then_fingerprint [of fileEntry "fileEntry\<lparr>hash := 7\<rparr>"]
    Compare_type_then_fingerprint [of fileEntry "fileEntry\<lparr>Path := ''/bin/dash''\<rparr>"]
  by (simp add: dirEntryA_def fileEntry_def TypeDir_def)


section \<open>Copy\<close>

text \<open>
  C10. \<^verbatim>\<open>FileInfo.Copy\<close> on a nil pointer returns nil, without a panic; on a pointer to
  a FileInfo it returns a FileInfo with the same \<^verbatim>\<open>Path\<close>, \<^verbatim>\<open>TypeFlag\<close>, \<^verbatim>\<open>hash\<close> and
  \<^verbatim>\<open>TarHeader\<close>.
\<close>

theorem FileInfo_Copy_total:
  "FileInfo_Copy None = None
   \<and> (\<exists>c. FileInfo_Copy (Some d) = Some c \<and> Path c = Path d \<and> TypeFlag c = TypeFlag d
          \<and> hash c = hash d \<and> TarHeader c = TarHeader d)"
  by (simp add: FileInfo_Copy_def)

lemma NodeData_Copy_result:
  assumes "load hp (Some p) = Some d"
  shows "NodeData_Copy cfg hp (Some p)
         = Inr (length (nodeObjs hp), hp\<lparr>nodeObjs := nodeObjs hp @ [d]\<rparr>)"
  using assms
  by (simp add: NodeData_Copy_def ViewInfo_Copy_def NewViewInfo_def FileInfo_Copy_def alloc_def)

lemma load_Some_bound: "load hp (Some p) = Some d \<Longrightarrow> p < length (nodeObjs hp) \<and> nodeObjs hp ! p = d"
  by (simp add: load_def split: if_splits)





section \<open>The loop of getHashFromReader\<close>

lemma getHashLoop_chunks:
  "readsChunks rd k reader cs = Some r1 \<Longrightarrow>
   getHashLoop X rd k h n reader =
   getHashLoop X rd k (foldl (Write X) h cs) (n + of_nat (length (concat cs))) r1"
proof (induction cs arbitrary: h n reader)
  case Nil
  then show ?case by simp
next
  case (Cons c cs)
  obtain buf err reader' where rd: "rd k reader = ((buf, err), reader')"
    by (metis prod.exhaust)
  from Cons.prems rd have c: "buf = c" "c \<noteq> []" "length c \<le> k" "err = None \<or> err = Some EOF"
    and rest: "readsChunks rd k reader' cs = Some r1"
    by (auto split: if_splits)
  have "getHashLoop X rd k h n reader =
        getHashLoop X rd k (Write X h c) (n + of_nat (length c)) reader'"
    using rd c by (subst getHashLoop.simps) auto
  also have "\<dots> = getHashLoop X rd k (foldl (Write X) (Write X h c) cs)
        (n + of_nat (length c) + of_nat (length (concat cs))) r1"
    by (rule Cons.IH [OF rest])
  finally show ?case by (simp add: add.assoc)
qed

lemma getHashLoop_stops:
  "stopsAt rd k reader \<Longrightarrow>
   getHashLoop X rd k h n reader = Some (hashOutcome X rd k h n reader [])"
  by (subst getHashLoop.simps) (auto simp: stopsAt_def hashOutcome_def split: prod.splits)

lemma getHashLoop_Some:
  assumes "getHashLoop (X :: 'd Digest) (rd :: 's Read) k h n reader = Some y"
  shows "\<exists>cs r1. readsChunks rd k reader cs = Some r1 \<and> stopsAt rd k r1
           \<and> y = hashOutcome X rd k h n r1 cs"
proof (rule getHashLoop.raw_induct [where P = "\<lambda>X rd k h n reader y.
          \<exists>cs r1. readsChunks rd k reader cs = Some r1 \<and> stopsAt rd k r1
            \<and> y = hashOutcome X rd k h n r1 cs",
        OF _ assms])
  fix loop :: "'d Digest \<Rightarrow> 's Read \<Rightarrow> nat \<Rightarrow> 'd \<Rightarrow> uint64 \<Rightarrow> 's
      \<Rightarrow> (panic + (uint64 \<times> uint64) \<times> 's) option"
  fix X :: "'d Digest" and rd :: "'s Read" and k h n reader y
  assume IH: "\<And>X rd k h n reader y. loop X rd k h n reader = Some y \<Longrightarrow>
          \<exists>cs r1. readsChunks rd k reader cs = Some r1 \<and> stopsAt rd k r1
            \<and> y = hashOutcome X rd k h n r1 cs"
  assume body: "(case rd k reader of ((buf, err), reader') \<Rightarrow>
        if err \<noteq> None \<and> err \<noteq> Some EOF then Some (Inl (ReadErrorPanic (the err)))
        else if length buf = 0 then Some (Inr ((Sum64 X h, n + of_nat (length buf)), reader'))
        else if k < length buf then Some (Inl SliceBoundsOutOfRange)
        else loop X rd k (Write X h buf) (n + of_nat (length buf)) reader') = Some y"
  obtain buf err reader' where rd: "rd k reader = ((buf, err), reader')"
    by (metis prod.exhaust)
  show "\<exists>cs r1. readsChunks rd k reader cs = Some r1 \<and> stopsAt rd k r1
          \<and> y = hashOutcome X rd k h n r1 cs"
  proof (cases "stopsAt rd k reader")
    case True
    with rd body have "y = hashOutcome X rd k h n reader []"
      by (auto simp: stopsAt_def hashOutcome_def split: if_splits)
    with True have "readsChunks rd k reader [] = Some reader \<and> stopsAt rd k reader
        \<and> y = hashOutcome X rd k h n reader []"
      by simp
    then show ?thesis by blast
  next
    case False
    with rd have good: "err = None \<or> err = Some EOF" "buf \<noteq> []" "length buf \<le> k"
      by (auto simp: stopsAt_def)
    with rd body
    have call: "loop X rd k (Write X h buf) (n + of_nat (length buf)) reader' = Some y"
      by (auto split: if_splits)
    from IH [OF call] obtain cs r1 where
      cs: "readsChunks rd k reader' cs = Some r1" "stopsAt rd k r1"
      and y: "y = hashOutcome X rd k (Write X h buf) (n + of_nat (length buf)) r1 cs"
      by blast
    from good rd cs have "readsChunks rd k reader (buf # cs) = Some r1"
      by auto
    moreover from y have "y = hashOutcome X rd k h n r1 (buf # cs)"
      by (simp add: hashOutcome_def add.assoc split: prod.splits)
    ultimately show ?thesis using cs(2) by blast
  qed
qed

lemma getHashLoop_iff:
  "getHashLoop X rd k h n reader = Some y \<longleftrightarrow>
   (\<exists>cs r1. readsChunks rd k reader cs = Some r1 \<and> stopsAt rd k r1
      \<and> y = hashOutcome X rd k h n r1 cs)"
proof
  assume "getHashLoop X rd k h n reader = Some y"
  then show "\<exists>cs r1. readsChunks rd k reader cs = Some r1 \<and> stopsAt rd k r1
      \<and> y = hashOutcome X rd k h n r1 cs"
    by (rule getHashLoop_Some)
next
  assume "\<exists>cs r1. readsChunks rd k reader cs = Some r1 \<and> stopsAt rd k r1
      \<and> y = hashOutcome X rd k h n r1 cs"
  then obtain cs r1 where cs: "readsChunks rd k reader cs = Some r1" and st: "stopsAt rd k r1"
    and y: "y = hashOutcome X rd k h n r1 cs"
    by blast
  have "getHashLoop X rd k h n reader =
        getHashLoop X rd k (foldl (Write X) h cs) (n + of_nat (length (concat cs))) r1"
    by (rule getHashLoop_chunks [OF cs])
  also have "\<dots> = Some (hashOutcome X rd k (foldl (Write X) h cs)
        (n + of_nat (length (concat cs))) r1 [])"
    by (rule getHashLoop_stops [OF st])
  also have "\<dots> = Some y"
    by (simp add: y hashOutcome_def split: prod.splits)
  finally show "getHashLoop X rd k h n reader = Some y" .
qed

text \<open>The run that ends in a read of no bytes, with the error nil or \<^verbatim>\<open>io.EOF\<close>.\<close>

lemma getHashFromReader_run:
  assumes "readsChunks rd k reader cs = Some r1" and "rd k r1 = (([], err), reader')"
    and "err = None \<or> err = Some EOF"
  shows "getHashFromReader X rd k reader
         = Some (Inr ((Sum64 X (foldl (Write X) (New X) cs), of_nat (length (concat cs))), reader'))"
proof -
  from assms(2,3) have "stopsAt rd k r1"
    and "hashOutcome X rd k (New X) 0 r1 cs
         = Inr ((Sum64 X (foldl (Write X) (New X) cs), of_nat (length (concat cs))), reader')"
    by (auto simp: stopsAt_def hashOutcome_def)
  with assms(1) show ?thesis
    unfolding getHashFromReader_def getHashLoop_iff by metis
qed

lemma getHashFromReader_returns:
  assumes "getHashFromReader X rd k reader = Some (Inr ((fp, n), reader'))"
  shows "\<exists>cs r1 err. readsChunks rd k reader cs = Some r1 \<and> rd k r1 = (([], err), reader')
      \<and> (err = None \<or> err = Some EOF)
      \<and> fp = Sum64 X (foldl (Write X) (New X) cs) \<and> n = of_nat (length (concat cs))"
proof -
  from assms obtain cs r1 where cs: "readsChunks rd k reader cs = Some r1"
    and y: "Inr ((fp, n), reader') = hashOutcome X rd k (New X) 0 r1 cs"
    unfolding getHashFromReader_def getHashLoop_iff by blast
  obtain buf err r2 where rd: "rd k r1 = ((buf, err), r2)"
    by (metis prod.exhaust)
  from y rd have "buf = []" "err = None \<or> err = Some EOF" "r2 = reader'"
    "fp = Sum64 X (foldl (Write X) (New X) cs)" "n = of_nat (length (concat cs))"
    by (auto simp: hashOutcome_def split: if_splits)
  with cs rd show ?thesis by blast
qed

lemma getHashFromReader_read_error:
  "getHashFromReader X rd k reader = Some (Inl (ReadErrorPanic e)) \<longleftrightarrow>
   (\<exists>cs r1 buf reader'. readsChunks rd k reader cs = Some r1
      \<and> rd k r1 = ((buf, Some e), reader') \<and> e \<noteq> EOF)"
proof
  assume "getHashFromReader X rd k reader = Some (Inl (ReadErrorPanic e))"
  then obtain cs r1 where cs: "readsChunks rd k reader cs = Some r1"
    and y: "Inl (ReadErrorPanic e) = hashOutcome X rd k (New X) 0 r1 cs"
    unfolding getHashFromReader_def getHashLoop_iff by blast
  obtain buf err r2 where rd: "rd k r1 = ((buf, err), r2)"
    by (metis prod.exhaust)
  from y rd have "err = Some e" "e \<noteq> EOF"
    by (auto simp: hashOutcome_def split: if_splits)
  with cs rd show "\<exists>cs r1 buf reader'. readsChunks rd k reader cs = Some r1
      \<and> rd k r1 = ((buf, Some e), reader') \<and> e \<noteq> EOF"
    by blast
next
  assume "\<exists>cs r1 buf reader'. readsChunks rd k reader cs = Some r1
      \<and> rd k r1 = ((buf, Some e), reader') \<and> e \<noteq> EOF"
  then obtain cs r1 buf reader' where cs: "readsChunks rd k reader cs = Some r1"
    and rd: "rd k r1 = ((buf, Some e), reader')" and e: "e \<noteq> EOF"
    by blast
  from rd e have "stopsAt rd k r1"
    and "hashOutcome X rd k (New X) 0 r1 cs = Inl (ReadErrorPanic e)"
    by (simp_all add: stopsAt_def hashOutcome_def)
  with cs show "getHashFromReader X rd k reader = Some (Inl (ReadErrorPanic e))"
    unfolding getHashFromReader_def getHashLoop_iff by metis
qed


text \<open>
  C6, as the code has it. \<^verbatim>\<open>getHashFromReader\<close> returns exactly when, after reads that
  each delivered at least one byte with the error nil or \<^verbatim>\<open>io.EOF\<close>, a read delivers no
  byte with the error nil or \<^verbatim>\<open>io.EOF\<close>: a zero-byte read at the end of the stream ends
  it, and so does a zero-byte read with no error at all. It returns the fingerprint of
  the chunks delivered before, and the number of their bytes. It panics with the read
  error exactly when, after such reads, a read reports an error other than \<^verbatim>\<open>io.EOF\<close>;
  no further read is made.
\<close>

theorem getHashFromReader_stops_at_zero_read:
  "(getHashFromReader X rd k reader = Some (Inr ((fp, n), reader')) \<longleftrightarrow>
      (\<exists>cs r1 err. readsChunks rd k reader cs = Some r1 \<and> rd k r1 = (([], err), reader')
         \<and> (err = None \<or> err = Some EOF)
         \<and> fp = Sum64 X (foldl (Write X) (New X) cs) \<and> n = of_nat (length (concat cs))))
   \<and> (getHashFromReader X rd k reader = Some (Inl (ReadErrorPanic e)) \<longleftrightarrow>
      (\<exists>cs r1 buf r2. readsChunks rd k reader cs = Some r1
         \<and> rd k r1 = ((buf, Some e), r2) \<and> e \<noteq> EOF))"
proof (intro conjI iffI)
  assume "getHashFromReader X rd k reader = Some (Inr ((fp, n), reader'))"
  then show "\<exists>cs r1 err. readsChunks rd k reader cs = Some r1 \<and> rd k r1 = (([], err), reader')
         \<and> (err = None \<or> err = Some EOF)
         \<and> fp = Sum64 X (foldl (Write X) (New X) cs) \<and> n = of_nat (length (concat cs))"
    by (rule getHashFromReader_returns)
next
  assume "\<exists>cs r1 err. readsChunks rd k reader cs = Some r1 \<and> rd k r1 = (([], err), reader')
         \<and> (err = None \<or> err = Some EOF)
         \<and> fp = Sum64 X (foldl (Write X) (New X) cs) \<and> n = of_nat (length (concat cs))"
  then show "getHashFromReader X rd k reader = Some (Inr ((fp, n), reader'))"
    using getHashFromReader_run [of rd k reader _ _ _ reader' X] by blast
next
  assume "getHashFromReader X rd k reader = Some (Inl (ReadErrorPanic e))"
  then show "\<exists>cs r1 buf r2. readsChunks rd k reader cs = Some r1
         \<and> rd k r1 = ((buf, Some e), r2) \<and> e \<noteq> EOF"
    by (simp only: getHashFromReader_read_error)
next
  assume "\<exists>cs r1 buf r2. readsChunks rd k reader cs = Some r1
         \<and> rd k r1 = ((buf, Some e), r2) \<and> e \<noteq> EOF"
  then show "getHashFromReader X rd k reader = Some (Inl (ReadErrorPanic e))"
    by (simp only: getHashFromReader_read_error)
qed

theorem getHashFromReader_stops_at_zero_read_witness:
  "getHashFromReader polyDigest entryRead 2 [1, 2, 3, 4, 5] = Some (Inr ((986115, 5), []))
   \<and> getHashFromReader polyDigest scriptRead 4
        [([1, 2], None), ([3], Some (OtherError ''unexpected EOF'')), ([4], None)]
      = Some (Inl (ReadErrorPanic (OtherError ''unexpected EOF'')))"
proof -
  have ret: "\<exists>cs r1 err. readsChunks entryRead 2 [1, 2, 3, 4, 5] cs = Some r1
      \<and> entryRead 2 r1 = (([], err), [])
      \<and> (err = None \<or> err = Some EOF)
      \<and> 986115 = Sum64 polyDigest (foldl (Write polyDigest) (New polyDigest) cs)
      \<and> 5 = (of_nat (length (concat cs)) :: uint64)"
    by (rule exI [of _ "[[1, 2], [3, 4], [5]]"], rule exI [of _ "[]"], rule exI [of _ "Some EOF"])
      (simp add: entryRead_def polyDigest_def)
  have err: "\<exists>cs r1 buf r2.
      readsChunks scriptRead 4
        [([1, 2], None), ([3], Some (OtherError ''unexpected EOF'')), ([4], None)] cs = Some r1
      \<and> scriptRead 4 r1 = ((buf, Some (OtherError ''unexpected EOF'')), r2)
      \<and> OtherError ''unexpected EOF'' \<noteq> EOF"
    by (rule exI [of _ "[[1, 2]]"],
        rule exI [of _ "[([3], Some (OtherError ''unexpected EOF'')), ([4], None)]"],
        rule exI [of _ "[3]"], rule exI [of _ "[([4], None)]"])
      (simp add: scriptRead_def)
  have "getHashFromReader polyDigest entryRead 2 [1, 2, 3, 4, 5] = Some (Inr ((986115, 5), []))"
    by (rule iffD2 [OF conjunct1 [OF getHashFromReader_stops_at_zero_read]]) (rule ret)
  moreover
  have "getHashFromReader polyDigest scriptRead 4
        [([1, 2], None), ([3], Some (OtherError ''unexpected EOF'')), ([4], None)]
      = Some (Inl (ReadErrorPanic (OtherError ''unexpected EOF'')))"
    by (rule iffD2 [OF conjunct2 [OF getHashFromReader_stops_at_zero_read]]) (rule err)
  ultimately show ?thesis
    by (rule conjI)
qed

text \<open>
  The run against C6 as the spec words it: the reader delivers two bytes, then a read of
  no bytes with a nil error, and has more to deliver. The hasher returns at that second
  read, with the fingerprint of the two bytes, although no read reported the end of the
  stream.
\<close>

theorem getHashFromReader_stops_without_EOF_counterexample:
  "scriptRead 4 [([1, 2], None), ([], None), ([3], None), ([], Some EOF)]
     = (([1, 2], None), [([], None), ([3], None), ([], Some EOF)])
   \<and> scriptRead 4 [([], None), ([3], None), ([], Some EOF)]
     = (([], None), [([3], None), ([], Some EOF)])
   \<and> getHashFromReader polyDigest scriptRead 4
        [([1, 2], None), ([], None), ([3], None), ([], Some EOF)]
     = Some (Inr ((Sum64 polyDigest (Write polyDigest (New polyDigest) [1, 2]), 2),
                  [([3], None), ([], Some EOF)]))"
  by (simp add: getHashFromReader_def getHashLoop.simps scriptRead_def polyDigest_def)


section \<open>The fingerprint as a function of the bytes\<close>

lemma readsChunks_nonempty: "readsChunks rd k reader cs = Some r1 \<Longrightarrow> [] \<notin> set cs"
proof (induction cs arbitrary: reader)
  case Nil
  then show ?case by simp
next
  case (Cons c cs)
  then show ?case
    by (auto split: prod.splits if_splits)
qed

lemma foldl_Write_concat:
  assumes streaming: "\<And>d a b. Write X (Write X d a) b = Write X d (a @ b)"
  shows "cs \<noteq> [] \<Longrightarrow> foldl (Write X) h cs = Write X h (concat cs)"
proof (induction cs arbitrary: h)
  case Nil
  then show ?case by simp
next
  case (Cons c cs)
  show ?case
  proof (cases "cs = []")
    case True
    then show ?thesis by simp
  next
    case False
    then have "foldl (Write X) (Write X h c) cs = Write X (Write X h c) (concat cs)"
      by (rule Cons.IH)
    then show ?thesis
      by (simp add: streaming)
  qed
qed

lemma foldl_Write_same_bytes:
  assumes streaming: "\<And>d a b. Write X (Write X d a) b = Write X d (a @ b)"
    and ne: "[] \<notin> set cs1" "[] \<notin> set cs2"
    and same: "concat cs1 = concat cs2"
  shows "foldl (Write X) h cs1 = foldl (Write X) h cs2"
proof (cases "cs1 = [] \<or> cs2 = []")
  case True
  with ne same have "cs1 = [] \<and> cs2 = []"
    by (cases cs1; cases cs2) auto
  then show ?thesis by simp
next
  case False
  then have "foldl (Write X) h cs1 = Write X h (concat cs1)"
    and "foldl (Write X) h cs2 = Write X h (concat cs2)"
    using foldl_Write_concat [of X, OF streaming] by blast+
  with same show ?thesis by simp
qed

text \<open>
  C7. Let the digest be a running hash: writing \<open>a\<close> and then \<open>b\<close> is writing \<open>a @ b\<close>, as
  it is for the xxhash digest. Take two runs of the hasher, over any two readers and with
  any two buffer sizes, in which the readers deliver the same byte sequence, cut into
  chunks in whatever way (\<open>cs1\<close> and \<open>cs2\<close>), before the read of no bytes that ends each
  run. Both runs return, with the same fingerprint and the same byte count.
\<close>

theorem fingerprint_independent_of_chunking:
  assumes streaming: "\<And>d a b. Write X (Write X d a) b = Write X d (a @ b)"
    and run1: "readsChunks rd1 k1 reader1 cs1 = Some s1" "rd1 k1 s1 = (([], e1), t1)"
      "e1 = None \<or> e1 = Some EOF"
    and run2: "readsChunks rd2 k2 reader2 cs2 = Some s2" "rd2 k2 s2 = (([], e2), t2)"
      "e2 = None \<or> e2 = Some EOF"
    and same: "concat cs1 = concat cs2"
  shows "\<exists>fp. getHashFromReader X rd1 k1 reader1
                = Some (Inr ((fp, of_nat (length (concat cs1))), t1))
            \<and> getHashFromReader X rd2 k2 reader2
                = Some (Inr ((fp, of_nat (length (concat cs1))), t2))"
proof -
  have "foldl (Write X) (New X) cs1 = foldl (Write X) (New X) cs2"
    using streaming readsChunks_nonempty [OF run1(1)] readsChunks_nonempty [OF run2(1)] same
    by (rule foldl_Write_same_bytes)
  with getHashFromReader_run [OF run1, of X] getHashFromReader_run [OF run2, of X] same
  show ?thesis by simp
qed

lemma polyDigest_streaming:
  "Write polyDigest (Write polyDigest d a) b = Write polyDigest d (a @ b)"
  by (simp add: polyDigest_def)

theorem fingerprint_independent_of_chunking_witness:
  "readsChunks entryRead 2 [1, 2, 3, 4, 5] [[1, 2], [3, 4], [5]] = Some []
   \<and> readsChunks scriptRead 3 [([1], None), ([2, 3, 4], None), ([5], Some EOF)]
        [[1], [2, 3, 4], [5]] = Some []
   \<and> concat [[1, 2], [3, 4], [5]] = concat [[1], [2, 3, 4], [5 :: byte]]
   \<and> (\<exists>fp. getHashFromReader polyDigest entryRead 2 [1, 2, 3, 4, 5] = Some (Inr ((fp, 5), []))
        \<and> getHashFromReader polyDigest scriptRead 3
            [([1], None), ([2, 3, 4], None), ([5], Some EOF)] = Some (Inr ((fp, 5), [])))"
proof -
  have r1: "readsChunks entryRead 2 [1, 2, 3, 4, 5] [[1, 2], [3, 4], [5]] = Some []"
    and z1: "entryRead 2 [] = (([], Some EOF), [])"
    by (simp_all add: entryRead_def)
  have r2: "readsChunks scriptRead 3 [([1], None), ([2, 3, 4], None), ([5], Some EOF)]
        [[1], [2, 3, 4], [5]] = Some []"
    and z2: "scriptRead 3 [] = (([], Some EOF), [])"
    by (simp_all add: scriptRead_def)
  have e: "Some EOF = None \<or> Some EOF = Some EOF"
    by simp
  have c: "concat [[1, 2], [3, 4], [5]] = concat [[1], [2, 3, 4], [5 :: byte]]"
    by simp
  from fingerprint_independent_of_chunking
    [of polyDigest, OF polyDigest_streaming r1 z1 e r2 z2 e c]
  have "\<exists>fp. getHashFromReader polyDigest entryRead 2 [1, 2, 3, 4, 5] = Some (Inr ((fp, 5), []))
        \<and> getHashFromReader polyDigest scriptRead 3
            [([1], None), ([2, 3, 4], None), ([5], Some EOF)] = Some (Inr ((fp, 5), []))"
    by simp
  with r1 r2 c show ?thesis
    by blast
qed


text \<open>
  The run exists for every payload: over a reader of the \<^verbatim>\<open>tar.Reader\<close> kind the hasher
  returns for each buffer size above 0, with the digest of the whole payload and its
  length, so the buffer size does not show in the result.
\<close>

lemma entryRead_delivers:
  assumes "0 < k"
  shows "\<exists>cs. readsChunks entryRead k payload cs = Some [] \<and> concat cs = payload"
proof (induction payload rule: length_induct)
  case (1 payload)
  show ?case
  proof (cases "payload = []")
    case True
    then have "readsChunks entryRead k payload [] = Some [] \<and> concat [] = payload"
      by simp
    then show ?thesis by blast
  next
    case False
    with assms have shorter: "length (drop k payload) < length payload"
      and c: "take k payload \<noteq> []" "length (take k payload) \<le> k"
      by (cases payload; simp)+
    from "1.IH" shorter obtain cs where
      cs: "readsChunks entryRead k (drop k payload) cs = Some []" "concat cs = drop k payload"
      by blast
    from c cs(1) have "readsChunks entryRead k payload (take k payload # cs) = Some []"
      by (simp add: entryRead_def)
    moreover from cs(2) have "concat (take k payload # cs) = payload"
      by simp
    ultimately show ?thesis by blast
  qed
qed

lemma entryRead_hash:
  assumes streaming: "\<And>d a b. Write X (Write X d a) b = Write X d (a @ b)"
    and "0 < k"
  shows "getHashFromReader X entryRead k payload
         = Some (Inr ((Sum64 X (if payload = [] then New X else Write X (New X) payload),
                       of_nat (length payload)), []))"
proof -
  from entryRead_delivers [OF assms(2)] obtain cs where
    cs: "readsChunks entryRead k payload cs = Some []" "concat cs = payload"
    by blast
  have z: "entryRead k [] = (([], Some EOF), [])"
    by (simp add: entryRead_def)
  have "foldl (Write X) (New X) cs = (if payload = [] then New X else Write X (New X) payload)"
  proof (cases "cs = []")
    case True
    with cs(2) show ?thesis by auto
  next
    case False
    with readsChunks_nonempty [OF cs(1)] cs(2) have "payload \<noteq> []"
      by (cases cs) auto
    with False cs(2) foldl_Write_concat [of X cs "New X", OF streaming] show ?thesis
      by simp
  qed
  with getHashFromReader_run [OF cs(1) z, of X] cs(2) show ?thesis
    by simp
qed

section \<open>NewFileInfo\<close>

lemma NewFileInfo_mismatch:
  assumes "Typeflag hdr \<noteq> TypeDir"
    and "getHashFromReader X rd k reader = Some (Inr ((fp, n), reader'))" and "n \<noteq> Size hdr"
  shows "NewFileInfo X rd k reader (Some hdr) path = Some (Inl SizeMismatchPanic)"
  using assms by (simp add: NewFileInfo_def)

lemma NewFileInfo_returns:
  assumes "Typeflag hdr \<noteq> TypeDir"
    and "NewFileInfo X rd k reader (Some hdr) path = Some (Inr (fi, r))"
  shows "getHashFromReader X rd k reader = Some (Inr ((hash fi, Size hdr), r))
    \<and> fi = \<lparr>Path = path, TypeFlag = Typeflag hdr, hash = hash fi, TarHeader = hdr\<rparr>"
  using assms
  by (auto simp: NewFileInfo_def split: option.splits sum.splits prod.splits if_splits)

lemma count_differs:
  fixes w :: int64
  assumes "m < 2 ^ 64" and "0 \<le> sint w" and "int m \<noteq> sint w"
  shows "(of_nat m :: uint64) \<noteq> w"
proof
  assume eq: "(of_nat m :: uint64) = w"
  have "unat w = m"
    using of_nat_inverse [OF eq] assms(1) by simp
  then have "uint w = int m"
    by (simp add: uint_nat)
  moreover have "sint w < 2 ^ 64"
    using sint_lt [of w] by simp
  with assms(2) have "uint w = sint w"
    by (simp add: uint_sint take_bit_int_eq_self)
  ultimately show False
    using assms(3) by simp
qed

text \<open>
  C5. For an entry that is not a directory: whenever the hasher returns a byte count
  that differs from \<^verbatim>\<open>uint64(header.Size)\<close>, \<^verbatim>\<open>NewFileInfo\<close> panics and returns no
  FileInfo; whenever it does return a FileInfo, the hasher has counted exactly the
  declared size and the fingerprint is the one of that run. In numbers: if the stream
  delivers \<open>length (concat cs)\<close> bytes (fewer than \<open>2 ^ 64\<close>) and the declared size, not
  negative, is another number, smaller or greater, \<^verbatim>\<open>NewFileInfo\<close> panics.
\<close>

theorem NewFileInfo_size_mismatch_panics:
  assumes "Typeflag hdr \<noteq> TypeDir"
  shows "(getHashFromReader X rd k reader = Some (Inr ((fp, n), reader')) \<and> n \<noteq> Size hdr
            \<longrightarrow> NewFileInfo X rd k reader (Some hdr) path = Some (Inl SizeMismatchPanic))
       \<and> (NewFileInfo X rd k reader (Some hdr) path = Some (Inr (fi, r))
            \<longrightarrow> getHashFromReader X rd k reader = Some (Inr ((hash fi, Size hdr), r)))
       \<and> (readsChunks rd k reader cs = Some r1 \<and> rd k r1 = (([], err), r2)
            \<and> (err = None \<or> err = Some EOF)
            \<and> length (concat cs) < 2 ^ 64 \<and> 0 \<le> sint (Size hdr)
            \<and> int (length (concat cs)) \<noteq> sint (Size hdr)
            \<longrightarrow> NewFileInfo X rd k reader (Some hdr) path = Some (Inl SizeMismatchPanic))"
proof (intro conjI impI)
  assume "getHashFromReader X rd k reader = Some (Inr ((fp, n), reader')) \<and> n \<noteq> Size hdr"
  with assms show "NewFileInfo X rd k reader (Some hdr) path = Some (Inl SizeMismatchPanic)"
    by (simp add: NewFileInfo_mismatch)
next
  assume "NewFileInfo X rd k reader (Some hdr) path = Some (Inr (fi, r))"
  with assms show "getHashFromReader X rd k reader = Some (Inr ((hash fi, Size hdr), r))"
    by (simp add: NewFileInfo_returns)
next
  assume a: "readsChunks rd k reader cs = Some r1 \<and> rd k r1 = (([], err), r2)
            \<and> (err = None \<or> err = Some EOF)
            \<and> length (concat cs) < 2 ^ 64 \<and> 0 \<le> sint (Size hdr)
            \<and> int (length (concat cs)) \<noteq> sint (Size hdr)"
  then have "getHashFromReader X rd k reader
      = Some (Inr ((Sum64 X (foldl (Write X) (New X) cs), of_nat (length (concat cs))), r2))"
    by (simp add: getHashFromReader_run)
  moreover from a have "(of_nat (length (concat cs)) :: uint64) \<noteq> Size hdr"
    by (simp add: count_differs)
  ultimately show "NewFileInfo X rd k reader (Some hdr) path = Some (Inl SizeMismatchPanic)"
    using assms by (rule NewFileInfo_mismatch [rotated])
qed

lemma example_run:
  "getHashFromReader polyDigest entryRead chuckSize [1, 2, 3] = Some (Inr ((1026, 3), []))"
  by (simp add: getHashFromReader_def getHashLoop.simps entryRead_def polyDigest_def chuckSize_def)

theorem NewFileInfo_size_mismatch_panics_witness:
  "Typeflag fileHeader \<noteq> TypeDir
   \<and> getHashFromReader polyDigest entryRead chuckSize [1, 2, 3] = Some (Inr ((1026, 3), []))
   \<and> 3 \<noteq> Size (fileHeader\<lparr>Size := 5\<rparr>)
   \<and> NewFileInfo polyDigest entryRead chuckSize [1, 2, 3] (Some (fileHeader\<lparr>Size := 5\<rparr>)) ''/bin/sh''
       = Some (Inl SizeMismatchPanic)
   \<and> readsChunks entryRead chuckSize [1, 2, 3] [[1, 2, 3]] = Some []
   \<and> int (length (concat [[1, 2, 3 :: byte]])) \<noteq> sint (Size (fileHeader\<lparr>Size := 2\<rparr>))
   \<and> NewFileInfo polyDigest entryRead chuckSize [1, 2, 3] (Some (fileHeader\<lparr>Size := 2\<rparr>)) ''/bin/sh''
       = Some (Inl SizeMismatchPanic)
   \<and> NewFileInfo polyDigest entryRead chuckSize [1, 2, 3] (Some fileHeader) ''/bin/sh''
       = Some (Inr (fileEntry, []))"
proof -
  have t: "Typeflag fileHeader \<noteq> TypeDir" "Typeflag (fileHeader\<lparr>Size := 5\<rparr>) \<noteq> TypeDir"
    "Typeflag (fileHeader\<lparr>Size := 2\<rparr>) \<noteq> TypeDir"
    by (simp_all add: fileHeader_def TypeDir_def)
  have five: "(3 :: uint64) \<noteq> Size (fileHeader\<lparr>Size := 5\<rparr>)"
    by simp
  have fewer: "NewFileInfo polyDigest entryRead chuckSize [1, 2, 3]
      (Some (fileHeader\<lparr>Size := 5\<rparr>)) ''/bin/sh'' = Some (Inl SizeMismatchPanic)"
    using NewFileInfo_size_mismatch_panics [OF t(2), where X = polyDigest and rd = entryRead
        and k = chuckSize and reader = "[1, 2, 3]" and fp = 1026 and n = 3 and reader' = "[]",
        THEN conjunct1] example_run five
    by simp
  have chunks: "readsChunks entryRead chuckSize [1, 2, 3] [[1, 2, 3]] = Some []"
    "entryRead chuckSize [] = (([], Some EOF), [])"
    by (simp_all add: entryRead_def chuckSize_def)
  have two: "int (length (concat [[1, 2, 3 :: byte]])) \<noteq> sint (Size (fileHeader\<lparr>Size := 2\<rparr>))"
    "length (concat [[1, 2, 3 :: byte]]) < 2 ^ 64" "0 \<le> sint (Size (fileHeader\<lparr>Size := 2\<rparr>))"
    by simp_all
  have more: "NewFileInfo polyDigest entryRead chuckSize [1, 2, 3]
      (Some (fileHeader\<lparr>Size := 2\<rparr>)) ''/bin/sh'' = Some (Inl SizeMismatchPanic)"
    using NewFileInfo_size_mismatch_panics [OF t(3), where rd = entryRead
        and k = chuckSize and reader = "[1, 2, 3]" and cs = "[[1, 2, 3]]" and ?r1.0 = "[]"
        and err = "Some EOF" and ?r2.0 = "[]", THEN conjunct2, THEN conjunct2] chunks two
    by simp
  have ok: "NewFileInfo polyDigest entryRead chuckSize [1, 2, 3] (Some fileHeader) ''/bin/sh''
       = Some (Inr (fileEntry, []))"
    using example_run
    by (simp add: NewFileInfo_def fileHeader_def fileEntry_def TypeDir_def)
  from NewFileInfo_size_mismatch_panics [OF t(1), where X = polyDigest and rd = entryRead
      and k = chuckSize and reader = "[1, 2, 3]" and path = "''/bin/sh''" and fi = fileEntry
      and r = "[]", THEN conjunct2, THEN conjunct1] ok
  have "getHashFromReader polyDigest entryRead chuckSize [1, 2, 3]
      = Some (Inr ((hash fileEntry, Size fileHeader), []))"
    by simp
  then have "getHashFromReader polyDigest entryRead chuckSize [1, 2, 3] = Some (Inr ((1026, 3), []))"
    by (simp add: fileEntry_def fileHeader_def)
  with t(1) five fewer chunks(1) two(1) more ok show ?thesis
    by simp
qed

text \<open>
  C8. For a header with the directory type flag, \<^verbatim>\<open>NewFileInfo\<close> returns a FileInfo with
  fingerprint 0 and leaves the reader in the state it was in: whatever the digest and
  the reader's \<^verbatim>\<open>Read\<close> are, neither takes part in the result, so the hasher is not run
  and nothing is read.
\<close>

theorem NewFileInfo_directory_reads_nothing:
  assumes "Typeflag hdr = TypeDir"
  shows "NewFileInfo X rd k reader (Some hdr) path
         = Some (Inr (\<lparr>Path = path, TypeFlag = TypeDir, hash = 0, TarHeader = hdr\<rparr>, reader))"
  using assms by (simp add: NewFileInfo_def)

theorem NewFileInfo_directory_reads_nothing_witness:
  "Typeflag dirHeader = TypeDir
   \<and> entryRead chuckSize [1, 2, 3] = (([1, 2, 3], Some EOF), [])
   \<and> NewFileInfo polyDigest entryRead chuckSize [1, 2, 3] (Some dirHeader) ''/etc''
        = Some (Inr (dirEntryA, [1, 2, 3]))
   \<and> hash dirEntryA = 0"
proof -
  have t: "Typeflag dirHeader = TypeDir"
    by (simp add: dirHeader_def)
  from NewFileInfo_directory_reads_nothing [OF t, of polyDigest entryRead chuckSize "[1, 2, 3]" "''/etc''"]
  have "NewFileInfo polyDigest entryRead chuckSize [1, 2, 3] (Some dirHeader) ''/etc''
        = Some (Inr (dirEntryA, [1, 2, 3]))"
    by (simp add: dirEntryA_def)
  with t show ?thesis
    by (simp add: entryRead_def chuckSize_def dirEntryA_def)
qed

section \<open>Comparing directories\<close>

text \<open>
  Against C4 as the spec words it: two FileInfo values with the directory type flag and
  different fingerprints compare \<^verbatim>\<open>Changed\<close>.
\<close>

theorem Compare_directory_fingerprints_counterexample:
  "TypeFlag dirEntryA = TypeDir \<and> TypeFlag dirEntryB = TypeDir
   \<and> Compare (Some dirEntryA) dirEntryB = Inr Changed
   \<and> Compare (Some dirEntryA) dirEntryB \<noteq> Inr Unchanged"
  by (simp add: Compare_def dirEntryA_def dirEntryB_def Changed_def Unchanged_def)

text \<open>
  C4, as the code has it. \<^verbatim>\<open>Compare\<close> looks at the fingerprints of two directory-type
  FileInfo values as it does for any other type: the result is \<^verbatim>\<open>Unchanged\<close> when they
  are equal and \<^verbatim>\<open>Changed\<close> when they are not. Two values that \<^verbatim>\<open>NewFileInfo\<close> built from
  directory headers both have fingerprint 0 and compare \<^verbatim>\<open>Unchanged\<close>, whatever their
  paths, timestamps and other header fields are.
\<close>

theorem Compare_directories:
  "(TypeFlag a = TypeDir \<and> TypeFlag b = TypeDir
      \<longrightarrow> Compare (Some a) b = Inr (if hash a = hash b then Unchanged else Changed))
   \<and> (Typeflag ha = TypeDir \<and> Typeflag hb = TypeDir
       \<and> NewFileInfo X rd k ra (Some ha) pa = Some (Inr (a', ra'))
       \<and> NewFileInfo X' rd' k' rb (Some hb) pb = Some (Inr (b', rb'))
      \<longrightarrow> Compare (Some a') b' = Inr Unchanged)"
  by (auto simp: Compare_def NewFileInfo_def)

theorem Compare_directories_witness:
  "TypeFlag dirEntryA = TypeDir \<and> TypeFlag dirEntryB = TypeDir
   \<and> Compare (Some dirEntryA) dirEntryB = Inr Changed
   \<and> Typeflag dirHeader = TypeDir \<and> Typeflag (dirHeader\<lparr>ModTime := 1540000000\<rparr>) = TypeDir
   \<and> NewFileInfo polyDigest entryRead chuckSize [] (Some dirHeader) ''/etc''
        = Some (Inr (dirEntryA, []))
   \<and> NewFileInfo polyDigest scriptRead chuckSize [] (Some (dirHeader\<lparr>ModTime := 1540000000\<rparr>)) ''/etc''
        = Some (Inr (dirEntryA\<lparr>TarHeader := dirHeader\<lparr>ModTime := 1540000000\<rparr>\<rparr>, []))
   \<and> Compare (Some dirEntryA) (dirEntryA\<lparr>TarHeader := dirHeader\<lparr>ModTime := 1540000000\<rparr>\<rparr>)
        = Inr Unchanged"
proof -
  have t: "TypeFlag dirEntryA = TypeDir" "TypeFlag dirEntryB = TypeDir"
    "Typeflag dirHeader = TypeDir" "Typeflag (dirHeader\<lparr>ModTime := 1540000000\<rparr>) = TypeDir"
    by (simp_all add: dirEntryA_def dirEntryB_def dirHeader_def)
  have n1: "NewFileInfo polyDigest entryRead chuckSize [] (Some dirHeader) ''/etc''
        = Some (Inr (dirEntryA, []))"
    by (simp add: NewFileInfo_def dirHeader_def dirEntryA_def)
  have n2: "NewFileInfo polyDigest scriptRead chuckSize [] (Some (dirHeader\<lparr>ModTime := 1540000000\<rparr>)) ''/etc''
        = Some (Inr (dirEntryA\<lparr>TarHeader := dirHeader\<lparr>ModTime := 1540000000\<rparr>\<rparr>, []))"
    by (simp add: NewFileInfo_def dirHeader_def dirEntryA_def)
  have "Compare (Some dirEntryA) dirEntryB = Inr Changed"
    using Compare_directories [THEN conjunct1, of dirEntryA dirEntryB] t(1,2)
    by (simp add: dirEntryA_def dirEntryB_def)
  moreover have "Compare (Some dirEntryA) (dirEntryA\<lparr>TarHeader := dirHeader\<lparr>ModTime := 1540000000\<rparr>\<rparr>)
        = Inr Unchanged"
    using Compare_directories [where ha = dirHeader
        and hb = "dirHeader\<lparr>ModTime := 1540000000\<rparr>"
        and X = polyDigest and rd = entryRead and k = chuckSize and ra = "[]" and pa = "''/etc''"
        and a' = dirEntryA and ra' = "[]"
        and X' = polyDigest and rd' = scriptRead and k' = chuckSize and rb = "[]"
        and pb = "''/etc''"
        and b' = "dirEntryA\<lparr>TarHeader := dirHeader\<lparr>ModTime := 1540000000\<rparr>\<rparr>"
        and rb' = "[]", THEN conjunct2]
      t(3,4) n1 n2
    by simp
  ultimately show ?thesis
    using t n1 n2 by simp
qed

end
